theory Spec2Isabelle
  imports Complex_Main "HOL-Library.Sublist"
begin

section \<open>Data model\<close>

text \<open>
  The program is \<^verbatim>\<open>src/data_cleaning.py\<close>; the function verified is \<^verbatim>\<open>clean_data\<close>.

  A pandas data frame is modelled by the list of its column names and the list of its rows
  in order. A row carries its index label (the frame's index, which every row filter of
  pandas preserves) and its cells, each under its column name. A cell is missing (\<open>NaN\<close>, \<open>None\<close>,
  \<open>NaT\<close>), a number, a string or a timestamp. Numbers are exact reals: rounding, infinities
  and the other effects of IEEE arithmetic are outside the model. A timestamp is its calendar
  date (year, month, day). Strings are lists of 8-bit characters; the case and whitespace
  functions below act on ASCII, other characters are left alone.

  Every operation of the program looks at \<open>columns\<close> before it reads a column. In a frame
  of pandas every row has a cell for every column (\<open>well_formed\<close> below).
\<close>

type_synonym date = "int \<times> int \<times> int"

datatype cell = NA | Num real | Str string | Date date

type_synonym row = "(string \<times> cell) list"

record frame =
  columns :: "string list"
  rows :: "(nat \<times> row) list"

datatype error = KeyError string | TypeError string

definition get :: "row \<Rightarrow> string \<Rightarrow> cell" where
  \<comment> \<open>the cell of a row under a column name\<close>
  "get r c = (case map_of r c of Some v \<Rightarrow> v | None \<Rightarrow> NA)"

fun put :: "string \<Rightarrow> cell \<Rightarrow> row \<Rightarrow> row" where
  \<comment> \<open>writing a cell: in place under a name the row has, at the end under a new name\<close>
  "put c v [] = [(c, v)]"
| "put c v (p # ps) = (if fst p = c then (c, v) # ps else p # put c v ps)"

definition well_formed :: "frame \<Rightarrow> bool" where
  "well_formed df \<longleftrightarrow> list_all (\<lambda>(i, r). map fst r = columns df) (rows df)"

section \<open>Frame operations used by the program\<close>

definition col :: "frame \<Rightarrow> string \<Rightarrow> cell list" where
  \<comment> \<open>\<^verbatim>\<open>df[c]\<close>, the values of a column in row order\<close>
  "col df c = map (\<lambda>(i, r). get r c) (rows df)"

definition isnull :: "cell \<Rightarrow> bool" where
  "isnull v \<longleftrightarrow> v = NA"

definition fillna :: "cell \<Rightarrow> cell \<Rightarrow> cell" where
  "fillna v x = (if isnull x then v else x)"

definition map_col :: "string \<Rightarrow> (cell \<Rightarrow> cell) \<Rightarrow> frame \<Rightarrow> frame" where
  \<comment> \<open>\<^verbatim>\<open>df[c] = f(df[c])\<close> for an elementwise \<open>f\<close> and a column that exists\<close>
  "map_col c f df = df\<lparr>rows := map (\<lambda>(i, r). (i, put c (f (get r c)) r)) (rows df)\<rparr>"

definition assign :: "string \<Rightarrow> (row \<Rightarrow> cell) \<Rightarrow> frame \<Rightarrow> frame" where
  \<comment> \<open>\<^verbatim>\<open>df[c] = ...\<close>: a new column goes to the end of \<open>columns\<close>, an old one keeps its place\<close>
  "assign c f df =
     \<lparr>columns = (if c \<in> set (columns df) then columns df else columns df @ [c]),
      rows = map (\<lambda>(i, r). (i, put c (f r) r)) (rows df)\<rparr>"

definition select :: "(row \<Rightarrow> bool) \<Rightarrow> frame \<Rightarrow> frame" where
  \<comment> \<open>\<^verbatim>\<open>df[mask]\<close>: the rows whose mask is true, in order, with their index labels\<close>
  "select p df = df\<lparr>rows := filter (\<lambda>(i, r). p r) (rows df)\<rparr>"

definition dropna :: "string list \<Rightarrow> frame \<Rightarrow> frame" where
  \<comment> \<open>\<^verbatim>\<open>df.dropna(subset=cs)\<close>: an empty subset drops nothing\<close>
  "dropna cs df = select (\<lambda>r. list_all (\<lambda>c. \<not> isnull (get r c)) cs) df"

fun keep_first :: "(row \<Rightarrow> cell) \<Rightarrow> cell list \<Rightarrow> (nat \<times> row) list \<Rightarrow> (nat \<times> row) list" where
  "keep_first key seen [] = []"
| "keep_first key seen (x # xs) =
     (if key (snd x) \<in> set seen then keep_first key seen xs
      else x # keep_first key (key (snd x) # seen) xs)"

definition drop_duplicates :: "string \<Rightarrow> frame \<Rightarrow> error + frame" where
  \<comment> \<open>\<^verbatim>\<open>df.drop_duplicates(subset=[c], keep='first')\<close>; pandas raises KeyError for an unknown column\<close>
  "drop_duplicates c df =
     (if c \<in> set (columns df) then Inr (df\<lparr>rows := keep_first (\<lambda>r. get r c) [] (rows df)\<rparr>)
      else Inl (KeyError c))"

subsection \<open>Numeric columns\<close>

fun is_numeric :: "cell \<Rightarrow> bool" where
  "is_numeric NA = True"
| "is_numeric (Num x) = True"
| "is_numeric (Str s) = False"
| "is_numeric (Date d) = False"

fun numbers :: "cell list \<Rightarrow> real list" where
  \<comment> \<open>the values a reduction sees: pandas skips missing cells\<close>
  "numbers [] = []"
| "numbers (Num x # cs) = x # numbers cs"
| "numbers (c # cs) = numbers cs"

definition median :: "cell list \<Rightarrow> cell" where
  "median cs =
     (let xs = sort (numbers cs); n = length xs in
      if n = 0 then NA
      else if odd n then Num (xs ! (n div 2))
      else Num ((xs ! (n div 2 - 1) + xs ! (n div 2)) / 2))"

definition mean :: "real list \<Rightarrow> real option" where
  \<comment> \<open>\<open>None\<close> is the NaN that pandas returns for an empty column\<close>
  "mean xs = (if xs = [] then None else Some (sum_list xs / real (length xs)))"

definition var :: "real list \<Rightarrow> real option" where
  \<comment> \<open>the sample variance (\<^verbatim>\<open>ddof=1\<close>); NaN for fewer than two values\<close>
  "var xs =
     (if length xs < 2 then None
      else Some (sum_list (map (\<lambda>x. (x - sum_list xs / real (length xs))\<^sup>2) xs)
                 / real (length xs - 1)))"

definition std :: "real list \<Rightarrow> real option" where
  \<comment> \<open>\<^verbatim>\<open>Series.std()\<close>, the square root of the sample variance\<close>
  "std xs = map_option sqrt (var xs)"

fun gt_zero :: "cell \<Rightarrow> bool" where
  \<comment> \<open>\<^verbatim>\<open>x > 0\<close> on a numeric cell; NaN compares false\<close>
  "gt_zero (Num x) = (0 < x)"
| "gt_zero c = False"

definition positive_only :: "string \<Rightarrow> frame \<Rightarrow> error + frame" where
  \<comment> \<open>\<^verbatim>\<open>df = df[df[c] > 0]\<close>; comparing a string or a timestamp with 0 raises TypeError\<close>
  "positive_only c df =
     (if list_all is_numeric (col df c) then Inr (select (\<lambda>r. gt_zero (get r c)) df)
      else Inl (TypeError c))"

fun within_3_std :: "real option \<Rightarrow> real option \<Rightarrow> cell \<Rightarrow> bool" where
  \<comment> \<open>\<^verbatim>\<open>abs(x - mean_amount) <= 3 * std_amount\<close>; false as soon as one side is NaN\<close>
  "within_3_std (Some m) (Some s) (Num x) = (\<bar>x - m\<bar> \<le> 3 * s)"
| "within_3_std m s c = False"

fun within_9_var :: "real option \<Rightarrow> real option \<Rightarrow> cell \<Rightarrow> bool" where
  \<comment> \<open>the same test on squares, which can be computed: see \<open>within_3_std_var\<close>\<close>
  "within_9_var (Some m) (Some v) (Num x) = ((x - m)\<^sup>2 \<le> 9 * v)"
| "within_9_var m v c = False"

subsection \<open>Strings\<close>

definition lowers :: string where "lowers = ''abcdefghijklmnopqrstuvwxyz''"
definition uppers :: string where "uppers = ''ABCDEFGHIJKLMNOPQRSTUVWXYZ''"
definition digits :: string where "digits = ''0123456789''"

definition whitespace :: string where
  \<comment> \<open>the ASCII characters for which Python's \<^verbatim>\<open>str.isspace\<close> holds\<close>
  "whitespace = [CHR 0x09, CHR 0x0A, CHR 0x0B, CHR 0x0C, CHR 0x0D,
                 CHR 0x1C, CHR 0x1D, CHR 0x1E, CHR 0x1F, CHR 0x20]"

definition to_upper :: "char \<Rightarrow> char" where
  "to_upper c = (case map_of (zip lowers uppers) c of Some u \<Rightarrow> u | None \<Rightarrow> c)"

definition to_lower :: "char \<Rightarrow> char" where
  "to_lower c = (case map_of (zip uppers lowers) c of Some l \<Rightarrow> l | None \<Rightarrow> c)"

definition is_cased :: "char \<Rightarrow> bool" where
  "is_cased c \<longleftrightarrow> c \<in> set (lowers @ uppers)"

fun title_from :: "bool \<Rightarrow> string \<Rightarrow> string" where
  \<comment> \<open>\<^verbatim>\<open>str.title\<close>: a letter after a cased character is lowered, any other letter is raised\<close>
  "title_from prev [] = []"
| "title_from prev (c # cs) =
     (if prev then to_lower c else to_upper c) # title_from (is_cased c) cs"

definition title :: "string \<Rightarrow> string" where
  "title s = title_from False s"

definition strip :: "string \<Rightarrow> string" where
  "strip s = rev (dropWhile (\<lambda>c. c \<in> set whitespace) (rev (dropWhile (\<lambda>c. c \<in> set whitespace) s)))"

definition str_title_strip :: "cell \<Rightarrow> cell" where
  \<comment> \<open>\<^verbatim>\<open>.str.title().str.strip()\<close>: the string accessor gives NaN for a cell that is not a string\<close>
  "str_title_strip v = (case v of Str s \<Rightarrow> Str (strip (title s)) | _ \<Rightarrow> NA)"

subsection \<open>Regular expressions\<close>

datatype rexp =
  Chars "char list"
  | Eps
  | Seq rexp rexp
  | Alt rexp rexp
  | Star rexp

fun nullable :: "rexp \<Rightarrow> bool" where
  "nullable (Chars cs) = False"
| "nullable Eps = True"
| "nullable (Seq r s) = (nullable r \<and> nullable s)"
| "nullable (Alt r s) = (nullable r \<or> nullable s)"
| "nullable (Star r) = True"

fun deriv :: "char \<Rightarrow> rexp \<Rightarrow> rexp" where
  "deriv c (Chars cs) = (if c \<in> set cs then Eps else Chars [])"
| "deriv c Eps = Chars []"
| "deriv c (Seq r s) =
     (if nullable r then Alt (Seq (deriv c r) s) (deriv c s) else Seq (deriv c r) s)"
| "deriv c (Alt r s) = Alt (deriv c r) (deriv c s)"
| "deriv c (Star r) = Seq (deriv c r) (Star r)"

fun fullmatch :: "rexp \<Rightarrow> string \<Rightarrow> bool" where
  "fullmatch r [] = nullable r"
| "fullmatch r (c # cs) = fullmatch (deriv c r) cs"

definition plus :: "rexp \<Rightarrow> rexp" where
  \<comment> \<open>\<^verbatim>\<open>r+\<close>\<close>
  "plus r = Seq r (Star r)"

definition dollar :: rexp where
  \<comment> \<open>\<^verbatim>\<open>$\<close> without MULTILINE: the end of the string, or just before a newline that ends it\<close>
  "dollar = Alt Eps (Chars [CHR 0x0A])"

definition email_pattern :: rexp where
  \<comment> \<open>\<^verbatim>\<open>^[a-zA-Z0-9._%+-]+@[a-zA-Z0-9.-]+\.[a-zA-Z]{2,}$\<close>\<close>
  "email_pattern =
     Seq (plus (Chars (lowers @ uppers @ digits @ ''._%+-'')))
    (Seq (Chars ''@'')
    (Seq (plus (Chars (lowers @ uppers @ digits @ ''.-'')))
    (Seq (Chars ''.'')
    (Seq (Chars (lowers @ uppers))
    (Seq (plus (Chars (lowers @ uppers)))
     dollar)))))"

fun str_match :: "rexp \<Rightarrow> cell \<Rightarrow> bool" where
  \<comment> \<open>\<^verbatim>\<open>.str.match(pattern, na=False)\<close>; the pattern ends in \<^verbatim>\<open>$\<close>, so matching at the start
      of the string is matching all of it\<close>
  "str_match p (Str s) = fullmatch p s"
| "str_match p c = False"

subsection \<open>Timestamps\<close>

definition to_datetime :: "(cell \<Rightarrow> date option) \<Rightarrow> cell \<Rightarrow> cell" where
  \<comment> \<open>\<^verbatim>\<open>pd.to_datetime(..., errors='coerce')\<close> on one cell. How pandas reads a string or a number
      as a timestamp is a parameter; a value it cannot read becomes NaT.\<close>
  "to_datetime parse v =
     (case v of NA \<Rightarrow> NA | Date d \<Rightarrow> Date d
      | _ \<Rightarrow> (case parse v of None \<Rightarrow> NA | Some d \<Rightarrow> Date d))"

definition days_from_civil :: "int \<Rightarrow> int \<Rightarrow> int \<Rightarrow> int" where
  \<comment> \<open>days since 1970-01-01 in the proleptic Gregorian calendar\<close>
  "days_from_civil y m d =
     (let y' = (if m \<le> 2 then y - 1 else y);
          era = y' div 400;
          yoe = y' - era * 400;
          doy = (153 * (if 2 < m then m - 3 else m + 9) + 2) div 5 + d - 1;
          doe = yoe * 365 + yoe div 4 - yoe div 100 + doy
      in era * 146097 + doe - 719468)"

definition day_name :: "date \<Rightarrow> string" where
  "day_name dt =
     (case dt of (y, m, d) \<Rightarrow>
        [''Monday'', ''Tuesday'', ''Wednesday'', ''Thursday'', ''Friday'', ''Saturday'', ''Sunday'']
          ! nat ((days_from_civil y m d + 3) mod 7))"

fun dt_field :: "(date \<Rightarrow> cell) \<Rightarrow> cell \<Rightarrow> cell" where
  \<comment> \<open>a \<^verbatim>\<open>.dt\<close> accessor on one cell; NaT gives NaN\<close>
  "dt_field f (Date d) = f d"
| "dt_field f c = NA"

subsection \<open>Lookup tables and binning\<close>

definition gender_mapping :: "(cell \<times> cell) list" where
  "gender_mapping =
     [(Str ''M'', Str ''Male''), (Str ''m'', Str ''Male''),
      (Str ''male'', Str ''Male''), (Str ''MALE'', Str ''Male''),
      (Str ''F'', Str ''Female''), (Str ''f'', Str ''Female''),
      (Str ''female'', Str ''Female''), (Str ''FEMALE'', Str ''Female'')]"

definition map_dict :: "(cell \<times> cell) list \<Rightarrow> cell \<Rightarrow> cell" where
  \<comment> \<open>\<^verbatim>\<open>Series.map(d)\<close> on one cell: a value that is not a key gives NaN\<close>
  "map_dict d v = (case map_of d v of Some w \<Rightarrow> w | None \<Rightarrow> NA)"

fun cut :: "real list \<Rightarrow> string list \<Rightarrow> real \<Rightarrow> cell" where
  \<comment> \<open>\<^verbatim>\<open>pd.cut\<close> with its defaults \<^verbatim>\<open>right=True, include_lowest=False\<close>: the label of the
      first interval \<open>(lo, hi]\<close> of consecutive bin edges that holds \<open>x\<close>, NaN when there is none\<close>
  "cut (lo # hi # bins) (l # labels) x =
     (if lo < x \<and> x \<le> hi then Str l else cut (hi # bins) labels x)"
| "cut bins labels x = NA"

fun pd_cut :: "real list \<Rightarrow> string list \<Rightarrow> cell \<Rightarrow> cell" where
  "pd_cut bins labels (Num x) = cut bins labels x"
| "pd_cut bins labels c = NA"

definition cell_div :: "cell \<Rightarrow> cell \<Rightarrow> cell" where
  \<comment> \<open>\<^verbatim>\<open>a / b\<close> on numeric cells. A division by zero does not raise in pandas; it gives an
      infinity or NaN, and the model has NaN for both.\<close>
  "cell_div a b =
     (case (a, b) of (Num x, Num y) \<Rightarrow> (if y = 0 then NA else Num (x / y)) | _ \<Rightarrow> NA)"

definition astype_str :: "(cell \<Rightarrow> string) \<Rightarrow> cell \<Rightarrow> string" where
  \<comment> \<open>\<^verbatim>\<open>.astype(str)\<close> on one cell. How a number or a timestamp prints is a parameter.\<close>
  "astype_str repr v = (case v of NA \<Rightarrow> ''nan'' | Str s \<Rightarrow> s | _ \<Rightarrow> repr v)"

definition clean_phone :: "(cell \<Rightarrow> string) \<Rightarrow> cell \<Rightarrow> cell" where
  \<comment> \<open>lines 63-64: every character that is not a digit goes; an empty result becomes NaN\<close>
  "clean_phone repr v =
     (let s = filter (\<lambda>c. c \<in> set digits) (astype_str repr v) in if s = [] then NA else Str s)"

section \<open>The stages of \<^verbatim>\<open>clean_data\<close>\<close>

definition critical_columns :: "string list" where
  "critical_columns = [''order_id'', ''customer_id'', ''order_date'', ''total_amount'']"

definition handle_missing_values :: "frame \<Rightarrow> error + frame" where
  \<comment> \<open>lines 24-39. The median of a column that holds a string or a timestamp raises TypeError.\<close>
  "handle_missing_values df =
     (if ''customer_age'' \<in> set (columns df) \<and> \<not> list_all is_numeric (col df ''customer_age'')
      then Inl (TypeError ''customer_age'')
      else
        let d1 = (if ''customer_age'' \<in> set (columns df)
                  then map_col ''customer_age'' (fillna (median (col df ''customer_age''))) df
                  else df);
            d2 = (if ''product_category'' \<in> set (columns d1)
                  then map_col ''product_category'' (fillna (Str ''Unknown'')) d1
                  else d1)
        in Inr (dropna (filter (\<lambda>c. c \<in> set (columns d2)) critical_columns) d2))"

definition remove_duplicates :: "frame \<Rightarrow> error + frame" where
  \<comment> \<open>lines 41-46: the column \<^verbatim>\<open>order_id\<close> is read without a check that it exists\<close>
  "remove_duplicates df = drop_duplicates ''order_id'' df"

definition standardize_types :: "(cell \<Rightarrow> date option) \<Rightarrow> (cell \<Rightarrow> string) \<Rightarrow> frame \<Rightarrow> frame" where
  \<comment> \<open>lines 48-64\<close>
  "standardize_types parse repr df =
     (let d1 = (if ''order_date'' \<in> set (columns df)
                then dropna [''order_date''] (map_col ''order_date'' (to_datetime parse) df)
                else df);
          d2 = (if ''customer_email'' \<in> set (columns d1)
                then select (\<lambda>r. str_match email_pattern (get r ''customer_email'')) d1
                else d1)
      in if ''customer_phone'' \<in> set (columns d2)
         then map_col ''customer_phone'' (clean_phone repr) d2
         else d2)"

definition remove_extreme :: "frame \<Rightarrow> frame" where
  \<comment> \<open>lines 80-82: mean and standard deviation are taken once, over the rows that reach this line\<close>
  "remove_extreme df =
     (let xs = numbers (col df ''total_amount'');
          mean_amount = mean xs;
          std_amount = std xs
      in select (\<lambda>r. within_3_std mean_amount std_amount (get r ''total_amount'')) df)"

definition positive_if_present :: "string \<Rightarrow> frame \<Rightarrow> error + frame" where
  "positive_if_present c df = (if c \<in> set (columns df) then positive_only c df else Inr df)"

definition handle_outliers :: "frame \<Rightarrow> error + frame" where
  \<comment> \<open>lines 66-82\<close>
  "handle_outliers df =
     (case positive_if_present ''quantity'' df of Inl e \<Rightarrow> Inl e | Inr d1 \<Rightarrow>
     (case positive_if_present ''unit_price'' d1 of Inl e \<Rightarrow> Inl e | Inr d2 \<Rightarrow>
      if ''total_amount'' \<in> set (columns d2)
      then (case positive_only ''total_amount'' d2 of Inl e \<Rightarrow> Inl e
            | Inr d3 \<Rightarrow> Inr (remove_extreme d3))
      else Inr d2))"

definition standardize_categorical :: "frame \<Rightarrow> frame" where
  \<comment> \<open>lines 84-101\<close>
  "standardize_categorical df =
     (let d1 = (if ''product_category'' \<in> set (columns df)
                then map_col ''product_category'' str_title_strip df else df);
          d2 = (if ''customer_gender'' \<in> set (columns d1)
                then map_col ''customer_gender''
                       (\<lambda>v. fillna (Str ''Unknown'') (map_dict gender_mapping v)) d1
                else d1)
      in if ''payment_method'' \<in> set (columns d2)
         then map_col ''payment_method'' str_title_strip d2 else d2)"

definition date_components :: "frame \<Rightarrow> frame" where
  \<comment> \<open>lines 107-112\<close>
  "date_components df =
     assign ''order_quarter''
       (\<lambda>r. dt_field (\<lambda>(y, m, d). Num (of_int ((m - 1) div 3 + 1))) (get r ''order_date''))
    (assign ''order_weekday'' (\<lambda>r. dt_field (\<lambda>dt. Str (day_name dt)) (get r ''order_date''))
    (assign ''order_day'' (\<lambda>r. dt_field (\<lambda>(y, m, d). Num (of_int d)) (get r ''order_date''))
    (assign ''order_month'' (\<lambda>r. dt_field (\<lambda>(y, m, d). Num (of_int m)) (get r ''order_date''))
    (assign ''order_year'' (\<lambda>r. dt_field (\<lambda>(y, m, d). Num (of_int y)) (get r ''order_date''))
     df))))"

definition age_bins :: "real list" where
  "age_bins = [0, 25, 35, 50, 65, 100]"

definition age_labels :: "string list" where
  "age_labels = [''18-25'', ''26-35'', ''36-50'', ''51-65'', ''65+'']"

definition create_derived_columns :: "frame \<Rightarrow> frame" where
  \<comment> \<open>lines 103-122\<close>
  "create_derived_columns df =
     (let d1 = (if ''order_date'' \<in> set (columns df) then date_components df else df);
          d2 = (if ''customer_age'' \<in> set (columns d1)
                then assign ''age_group'' (\<lambda>r. pd_cut age_bins age_labels (get r ''customer_age'')) d1
                else d1)
      in if ''total_amount'' \<in> set (columns d2) \<and> ''quantity'' \<in> set (columns d2)
         then assign ''revenue_per_item'' (\<lambda>r. cell_div (get r ''total_amount'') (get r ''quantity'')) d2
         else d2)"

definition final_validation :: "frame \<Rightarrow> error + frame" where
  \<comment> \<open>lines 124-140: the report reads \<^verbatim>\<open>df['order_id']\<close> and \<^verbatim>\<open>df['order_date']\<close> without a
      check that they exist, and changes nothing\<close>
  "final_validation df =
     (if ''order_id'' \<notin> set (columns df) then Inl (KeyError ''order_id'')
      else if ''order_date'' \<notin> set (columns df) then Inl (KeyError ''order_date'')
      else Inr df)"

definition before_derived :: "(cell \<Rightarrow> date option) \<Rightarrow> (cell \<Rightarrow> string) \<Rightarrow> frame \<Rightarrow> error + frame" where
  \<comment> \<open>stages 1 to 5: the frame that reaches the derived-column stage\<close>
  "before_derived parse repr df =
     (case handle_missing_values df of Inl e \<Rightarrow> Inl e | Inr d1 \<Rightarrow>
     (case remove_duplicates d1 of Inl e \<Rightarrow> Inl e | Inr d2 \<Rightarrow>
     (case handle_outliers (standardize_types parse repr d2) of Inl e \<Rightarrow> Inl e | Inr d4 \<Rightarrow>
      Inr (standardize_categorical d4))))"

definition clean_data :: "(cell \<Rightarrow> date option) \<Rightarrow> (cell \<Rightarrow> string) \<Rightarrow> frame \<Rightarrow> error + frame" where
  "clean_data parse repr df =
     (case before_derived parse repr df of Inl e \<Rightarrow> Inl e
      | Inr d5 \<Rightarrow> final_validation (create_derived_columns d5))"

subsection \<open>Concrete inputs\<close>

definition mk_frame :: "string list \<Rightarrow> cell list list \<Rightarrow> frame" where
  \<comment> \<open>a frame from its header and its lines, with the index 0, 1, ... that \<^verbatim>\<open>read_csv\<close> gives\<close>
  "mk_frame cs ls = \<lparr>columns = cs, rows = zip [0 ..< length ls] (map (zip cs) ls)\<rparr>"

definition cells :: "frame \<Rightarrow> (nat \<times> cell list) list" where
  \<comment> \<open>the rows of a frame as lines: the index label and the cells in column order\<close>
  "cells df = map (\<lambda>(i, r). (i, map (get r) (columns df))) (rows df)"

definition run :: "error + frame \<Rightarrow> error + string list \<times> (nat \<times> cell list) list" where
  \<comment> \<open>a result with the frame printed: its header and its lines\<close>
  "run res = (case res of Inl e \<Rightarrow> Inl e | Inr df \<Rightarrow> Inr (columns df, cells df))"

fun iso_digit :: "char \<Rightarrow> int option" where
  "iso_digit c = map_option int (map_of (zip digits [0 ..< 10]) c)"

fun iso_number :: "string \<Rightarrow> int option" where
  "iso_number [] = None"
| "iso_number cs =
     fold (\<lambda>c acc. case (acc, iso_digit c) of (Some a, Some d) \<Rightarrow> Some (10 * a + d) | _ \<Rightarrow> None)
       cs (Some 0)"

definition iso_date :: "cell \<Rightarrow> date option" where
  \<comment> \<open>a reader of \<^verbatim>\<open>YYYY-MM-DD\<close> strings, used where a theorem is run on a concrete frame\<close>
  "iso_date v =
     (case v of
        Str [y1, y2, y3, y4, d1, m1, m2, d2, a1, a2] \<Rightarrow>
          (if d1 = CHR ''-'' \<and> d2 = CHR ''-'' then
             (case (iso_number [y1, y2, y3, y4], iso_number [m1, m2], iso_number [a1, a2]) of
                (Some y, Some m, Some d) \<Rightarrow>
                  (if 1 \<le> m \<and> m \<le> 12 \<and> 1 \<le> d \<and> d \<le> 31 then Some (y, m, d) else None)
              | _ \<Rightarrow> None)
           else None)
      | _ \<Rightarrow> None)"

definition no_repr :: "cell \<Rightarrow> string" where
  "no_repr v = []"

definition no_order_id :: frame where
  "no_order_id = mk_frame [''customer_id'', ''order_date''] [[Str ''A'', Str ''2023-01-15'']]"

definition no_order_date :: frame where
  "no_order_date = mk_frame [''order_id'', ''customer_id''] [[Num 1, Str ''A'']]"

subsection \<open>Relating the rows of two frames\<close>

definition same_on :: "string set \<Rightarrow> nat \<times> row \<Rightarrow> nat \<times> row \<Rightarrow> bool" where
  "same_on C x y \<longleftrightarrow> fst x = fst y \<and> (\<forall>c\<in>C. get (snd x) c = get (snd y) c)"

definition traces :: "string set \<Rightarrow> frame \<Rightarrow> frame \<Rightarrow> bool" where
  "traces C out inn \<longleftrightarrow> list_emb (same_on C) (rows out) (rows inn)"

definition rewritten :: "string list" where
  "rewritten = [''customer_age'', ''product_category'', ''order_date'', ''customer_phone'',
     ''customer_gender'', ''payment_method'', ''order_year'', ''order_month'', ''order_day'',
     ''order_weekday'', ''order_quarter'', ''age_group'', ''revenue_per_item'']"

definition orders :: frame where
  "orders = mk_frame
     [''order_id'', ''customer_id'', ''order_date'', ''total_amount'', ''quantity'', ''unit_price'',
      ''customer_age'', ''customer_email'', ''customer_phone'', ''product_category'',
      ''customer_gender'', ''payment_method'']
     [[Num 1, Str ''A'', Str ''2023-01-15'', Num 100, Num 2, Num 50,
       Num 30, Str ''a@x.com'', Str ''(555) 123-4567'', Str '' home goods'', Str ''M'', Str ''credit card''],
      [Num 1, Str ''B'', Str ''2023-01-16'', Num 80, Num 1, Num 80,
       NA, Str ''b@x.com'', NA, NA, Str ''female'', Str ''paypal''],
      [Num 2, NA, Str ''2023-01-17'', Num 60, Num 1, Num 60,
       Num 40, Str ''c@x.com'', NA, Str ''toys'', Str ''F'', Str ''cash''],
      [Num 3, Str ''C'', Str ''not a date'', Num 50, Num 1, Num 50,
       Num 22, Str ''d@x.com'', NA, Str ''toys'', Str ''F'', Str ''cash''],
      [Num 4, Str ''D'', Str ''2023-02-01'', Num 70, Num 1, Num 70,
       Num 50, Str ''not-an-email'', NA, Str ''toys'', Str ''m'', Str ''cash''],
      [Num 5, Str ''E'', Str ''2023-02-02'', Num (-10), Num 1, Num 10,
       Num 61, Str ''e@x.com'', NA, Str ''toys'', Str ''f'', Str ''cash''],
      [Num 6, Str ''F'', Str ''2023-03-03'', Num 120, Num 3, Num 40,
       NA, Str ''f.g@y-z.org'', Str ''n/a'', NA, Str ''x'', NA],
      [Num 7, Str ''G'', Str ''2023-04-04'', Num 90, Num 0, Num 90,
       Num 70, Str ''g@x.com'', NA, Str ''toys'', NA, Str ''cash'']]"

definition age_zero :: frame where
  "age_zero = mk_frame [''order_id'', ''order_date'', ''customer_age'']
     [[Num 1, Str ''2023-01-15'', Num 0], [Num 2, Str ''2023-01-16'', Num 25.5],
      [Num 3, Str ''2023-01-17'', Num 65], [Num 4, Str ''2023-01-18'', Num 101]]"

definition has_criticals :: "frame \<Rightarrow> row \<Rightarrow> bool" where
  \<comment> \<open>the row has a value in every critical column of the frame: line 39 keeps it\<close>
  "has_criticals df r \<longleftrightarrow>
     list_all (\<lambda>c. \<not> isnull (get r c)) (filter (\<lambda>c. c \<in> set (columns df)) critical_columns)"


definition first_incomplete :: frame where
  "first_incomplete = mk_frame [''order_id'', ''customer_id'', ''order_date'']
     [[Num 5, NA, Str ''2023-01-15''], [Num 5, Str ''A'', Str ''2023-01-16'']]"

section \<open>Computing the outlier test\<close>

lemma var_nonneg: "var xs = Some v \<Longrightarrow> 0 \<le> v"
proof -
  assume a: "var xs = Some v"
  have "0 \<le> sum_list (map (\<lambda>x. (x - sum_list xs / real (length xs))\<^sup>2) xs)"
    by (rule sum_list_nonneg) auto
  then have "0 \<le> sum_list (map (\<lambda>x. (x - sum_list xs / real (length xs))\<^sup>2) xs)
                 / real (length xs - 1)"
    by (rule divide_nonneg_nonneg) simp
  with a show ?thesis by (simp add: var_def split: if_splits)
qed

lemma within_3_std_var:
  "within_3_std m (std xs) c = within_9_var m (var xs) c"
proof (cases "var xs")
  case None
  then show ?thesis by (cases m; cases c) (simp_all add: std_def)
next
  case (Some v)
  have "\<bar>x - a\<bar> \<le> 3 * sqrt v \<longleftrightarrow> (x - a)\<^sup>2 \<le> 9 * v" for x a
  proof -
    have "0 \<le> v" using Some by (rule var_nonneg)
    then have "3 * sqrt v = sqrt (9 * v)" by (simp add: real_sqrt_mult)
    moreover have "\<bar>x - a\<bar> = sqrt ((x - a)\<^sup>2)" by simp
    ultimately show ?thesis by (simp only: real_sqrt_le_iff)
  qed
  with Some show ?thesis by (cases m; cases c) (simp_all add: std_def)
qed

lemma remove_extreme_code [code]:
  "remove_extreme df =
     (let xs = numbers (col df ''total_amount'')
      in select (\<lambda>r. within_9_var (mean xs) (var xs) (get r ''total_amount'')) df)"
  by (simp add: remove_extreme_def Let_def within_3_std_var)

section \<open>Rows\<close>

lemma map_of_put: "map_of (put c v r) = (map_of r)(c \<mapsto> v)"
  by (induction r) (auto simp: fun_eq_iff)

lemma get_put [simp]: "get (put c v r) c' = (if c' = c then v else get r c')"
  by (simp add: get_def map_of_put)

section \<open>Columns\<close>

lemma columns_map_col [simp]: "columns (map_col c f df) = columns df"
  by (simp add: map_col_def)

lemma columns_select [simp]: "columns (select p df) = columns df"
  by (simp add: select_def)

lemma columns_dropna [simp]: "columns (dropna cs df) = columns df"
  by (simp add: dropna_def)

lemma columns_assign: "set (columns (assign c f df)) = insert c (set (columns df))"
  by (auto simp: assign_def)

lemma columns_handle_missing_values:
  "handle_missing_values df = Inr d \<Longrightarrow> columns d = columns df"
  by (auto simp: handle_missing_values_def Let_def split: if_splits)

lemma columns_remove_duplicates:
  "remove_duplicates df = Inr d \<Longrightarrow> columns d = columns df \<and> ''order_id'' \<in> set (columns df)"
  by (auto simp: remove_duplicates_def drop_duplicates_def split: if_splits)

lemma columns_standardize_types [simp]:
  "columns (standardize_types parse repr df) = columns df"
  by (simp add: standardize_types_def Let_def)

lemma columns_positive_if_present:
  "positive_if_present c df = Inr d \<Longrightarrow> columns d = columns df"
  by (auto simp: positive_if_present_def positive_only_def split: if_splits)

lemma columns_remove_extreme [simp]: "columns (remove_extreme df) = columns df"
  by (simp add: remove_extreme_def Let_def)

lemma columns_handle_outliers:
  "handle_outliers df = Inr d \<Longrightarrow> columns d = columns df"
  by (auto simp: handle_outliers_def positive_only_def
      split: sum.splits if_splits dest!: columns_positive_if_present)

lemma columns_standardize_categorical [simp]:
  "columns (standardize_categorical df) = columns df"
  by (simp add: standardize_categorical_def Let_def)

lemma columns_before_derived:
  "before_derived parse repr df = Inr d \<Longrightarrow> columns d = columns df"
  by (auto simp: before_derived_def split: sum.splits
      dest!: columns_handle_missing_values columns_remove_duplicates columns_handle_outliers)

lemma before_derived_order_id:
  "before_derived parse repr df = Inr d \<Longrightarrow> ''order_id'' \<in> set (columns df)"
  by (auto simp: before_derived_def split: sum.splits
      dest!: columns_handle_missing_values columns_remove_duplicates)

lemma columns_date_components:
  "set (columns (date_components df)) =
     set (columns df) \<union> {''order_year'', ''order_month'', ''order_day'', ''order_weekday'', ''order_quarter''}"
  by (auto simp: date_components_def columns_assign)

lemma columns_create_derived_columns_subset:
  "set (columns df) \<subseteq> set (columns (create_derived_columns df))"
  by (auto simp: create_derived_columns_def Let_def columns_assign columns_date_components)

lemma columns_create_derived_columns_new:
  "c \<in> set (columns (create_derived_columns df)) \<Longrightarrow> c \<notin> set (columns df) \<Longrightarrow>
   c \<in> {''order_year'', ''order_month'', ''order_day'', ''order_weekday'', ''order_quarter'',
        ''age_group'', ''revenue_per_item''}"
  by (auto simp: create_derived_columns_def Let_def columns_assign columns_date_components
      split: if_splits)

lemma clean_data_columns:
  assumes "clean_data parse repr df = Inr out"
  shows "''order_id'' \<in> set (columns df)" and "''order_date'' \<in> set (columns df)"
    and "set (columns df) \<subseteq> set (columns out)"
proof -
  from assms obtain d where d: "before_derived parse repr df = Inr d"
    and fv: "final_validation (create_derived_columns d) = Inr out"
    by (auto simp: clean_data_def split: sum.splits)
  from fv have out: "out = create_derived_columns d"
    and od: "''order_date'' \<in> set (columns (create_derived_columns d))"
    by (auto simp: final_validation_def split: if_splits)
  show "''order_id'' \<in> set (columns df)" using d by (rule before_derived_order_id)
  have "''order_date'' \<in> set (columns d)"
    using od columns_create_derived_columns_new [of "''order_date''" d] by auto
  then show "''order_date'' \<in> set (columns df)" using columns_before_derived [OF d] by simp
  show "set (columns df) \<subseteq> set (columns out)"
    using columns_create_derived_columns_subset [of d] columns_before_derived [OF d] out by simp
qed

section \<open>Every stage filters rows or rewrites cells\<close>

lemma traces_refl [simp]: "traces C df df"
  by (simp add: traces_def same_on_def list_emb_refl)

lemma traces_trans: "traces C a b \<Longrightarrow> traces C b c \<Longrightarrow> traces C a c"
  unfolding traces_def by (erule list_emb_trans [rotated]) (auto simp: same_on_def)

lemma list_emb_weaken: "list_emb P xs ys \<Longrightarrow> (\<And>x y. P x y \<Longrightarrow> Q x y) \<Longrightarrow> list_emb Q xs ys"
  by (induction rule: list_emb.induct) auto

lemma traces_mono: "traces C a b \<Longrightarrow> D \<subseteq> C \<Longrightarrow> traces D a b"
  unfolding traces_def by (erule list_emb_weaken) (auto simp: same_on_def)

lemma list_emb_filter: "(\<And>x. P x x) \<Longrightarrow> list_emb P (filter Q xs) xs"
  by (induction xs) auto

lemma list_emb_map: "(\<And>x. P (f x) x) \<Longrightarrow> list_emb P (map f xs) xs"
  by (induction xs) auto

lemma traces_select [simp]: "traces C (select p df) df"
  by (simp add: traces_def select_def list_emb_filter same_on_def)

lemma traces_dropna [simp]: "traces C (dropna cs df) df"
  by (simp add: dropna_def)

lemma traces_map_col: "c \<notin> C \<Longrightarrow> traces C (map_col c f df) df"
  unfolding traces_def map_col_def by (auto intro!: list_emb_map simp: same_on_def)

lemma traces_assign: "c \<notin> C \<Longrightarrow> traces C (assign c f df) df"
  unfolding traces_def assign_def by (auto intro!: list_emb_map simp: same_on_def)

lemma list_emb_keep_first: "(\<And>x. P x x) \<Longrightarrow> list_emb P (keep_first key seen xs) xs"
  by (induction xs arbitrary: seen) auto

lemma traces_subseq: "traces C a b \<Longrightarrow> subseq (map fst (rows a)) (map fst (rows b))"
  unfolding traces_def by (induction rule: list_emb.induct) (auto simp: same_on_def)

lemma traces_row:
  assumes "traces C a b" and "(i, r) \<in> set (rows a)"
  obtains r' where "(i, r') \<in> set (rows b)" and "\<And>c. c \<in> C \<Longrightarrow> get r c = get r' c"
proof -
  from assms obtain y where "y \<in> set (rows b)" and "same_on C (i, r) y"
    unfolding traces_def by (rule list_emb_set)
  then show thesis using that [of "snd y"] by (cases y) (auto simp: same_on_def)
qed

lemma traces_handle_missing_values:
  "handle_missing_values df = Inr d \<Longrightarrow> traces (- {''customer_age'', ''product_category''}) d df"
  by (auto simp: handle_missing_values_def Let_def split: if_splits
      intro!: traces_trans [OF traces_dropna] traces_map_col
      intro: traces_trans [OF traces_map_col traces_map_col])

lemma traces_remove_duplicates: "remove_duplicates df = Inr d \<Longrightarrow> traces C d df"
  by (auto simp: remove_duplicates_def drop_duplicates_def traces_def same_on_def
      split: if_splits intro!: list_emb_keep_first)

lemma traces_standardize_types:
  "traces (- {''order_date'', ''customer_phone''}) (standardize_types parse repr df) df"
  unfolding standardize_types_def Let_def
  by (auto intro!: traces_trans [OF traces_map_col] traces_trans [OF traces_select]
      traces_trans [OF traces_dropna] traces_map_col)

lemma traces_positive_if_present: "positive_if_present c df = Inr d \<Longrightarrow> traces C d df"
  by (auto simp: positive_if_present_def positive_only_def split: if_splits)

lemma traces_remove_extreme [simp]: "traces C (remove_extreme df) df"
  by (simp add: remove_extreme_def Let_def)

lemma traces_handle_outliers: "handle_outliers df = Inr d \<Longrightarrow> traces C d df"
  by (auto simp: handle_outliers_def positive_only_def split: sum.splits if_splits
      dest!: traces_positive_if_present [where C = C]
      intro: traces_trans traces_trans [OF traces_remove_extreme] traces_trans [OF traces_select])


lemma traces_standardize_categorical:
  "traces (- {''product_category'', ''customer_gender'', ''payment_method''})
     (standardize_categorical df) df"
  unfolding standardize_categorical_def Let_def
  by (auto intro!: traces_trans [OF traces_map_col] traces_map_col)

lemma traces_date_components:
  "traces (- {''order_year'', ''order_month'', ''order_day'', ''order_weekday'', ''order_quarter''})
     (date_components df) df"
  unfolding date_components_def
  by (intro traces_trans [OF traces_assign] traces_assign) auto

lemma traces_create_derived_columns:
  "traces (- {''order_year'', ''order_month'', ''order_day'', ''order_weekday'', ''order_quarter'',
             ''age_group'', ''revenue_per_item''}) (create_derived_columns df) df"
proof -
  let ?C = "- {''order_year'', ''order_month'', ''order_day'', ''order_weekday'', ''order_quarter'',
             ''age_group'', ''revenue_per_item''}"
  have dc: "traces ?C (date_components df) df"
    by (rule traces_mono [OF traces_date_components]) auto
  have a1: "traces ?C (assign ''age_group'' f d) d" for f d by (rule traces_assign) simp
  have a2: "traces ?C (assign ''revenue_per_item'' f d) d" for f d by (rule traces_assign) simp
  show ?thesis
    unfolding create_derived_columns_def Let_def
    by (auto intro: dc a1 a2 traces_trans [OF a1 dc] traces_trans [OF a2 dc]
        traces_trans [OF a2 a1] traces_trans [OF a2 traces_trans [OF a1 dc]])
qed

lemma traces_before_derived:
  assumes "before_derived parse repr df = Inr d"
  shows "traces (- set rewritten) d df"
proof -
  from assms obtain d1 d2 d4 where
    s1: "handle_missing_values df = Inr d1" and
    s2: "remove_duplicates d1 = Inr d2" and
    s4: "handle_outliers (standardize_types parse repr d2) = Inr d4" and
    d: "d = standardize_categorical d4"
    by (auto simp: before_derived_def split: sum.splits)
  have "traces (- set rewritten) d1 df"
    by (rule traces_mono [OF traces_handle_missing_values [OF s1]]) (simp add: rewritten_def)
  moreover have "traces (- set rewritten) d2 d1"
    by (rule traces_remove_duplicates [OF s2])
  moreover have "traces (- set rewritten) (standardize_types parse repr d2) d2"
    by (rule traces_mono [OF traces_standardize_types]) (simp add: rewritten_def)
  moreover have "traces (- set rewritten) d4 (standardize_types parse repr d2)"
    by (rule traces_handle_outliers [OF s4])
  moreover have "traces (- set rewritten) d d4"
    unfolding d by (rule traces_mono [OF traces_standardize_categorical]) (simp add: rewritten_def)
  ultimately show ?thesis by (blast intro: traces_trans)
qed

lemma clean_data_cases:
  assumes "clean_data parse repr df = Inr out"
  obtains d where "before_derived parse repr df = Inr d" and "out = create_derived_columns d"
  using assms by (auto simp: clean_data_def final_validation_def split: sum.splits if_splits)

lemma traces_clean_data:
  assumes "clean_data parse repr df = Inr out"
  shows "traces (- set rewritten) out df"
proof -
  from assms obtain d where d: "before_derived parse repr df = Inr d"
    and out: "out = create_derived_columns d" by (rule clean_data_cases)
  have "traces (- set rewritten) out d"
    unfolding out by (rule traces_mono [OF traces_create_derived_columns]) (simp add: rewritten_def)
  with traces_before_derived [OF d] show ?thesis by (blast intro: traces_trans)
qed

section \<open>A run on a concrete frame\<close>

lemma run_Inr: "run res = Inr x \<Longrightarrow> \<exists>df. res = Inr df \<and> columns df = fst x \<and> cells df = snd x"
  by (cases res) (auto simp: run_def)

lemma orders_run:
  "run (clean_data iso_date no_repr orders) =
     Inr ([''order_id'', ''customer_id'', ''order_date'', ''total_amount'', ''quantity'',
           ''unit_price'', ''customer_age'', ''customer_email'', ''customer_phone'',
           ''product_category'', ''customer_gender'', ''payment_method'', ''order_year'',
           ''order_month'', ''order_day'', ''order_weekday'', ''order_quarter'', ''age_group'',
           ''revenue_per_item''],
          [(0, [Num 1, Str ''A'', Date (2023, 1, 15), Num 100, Num 2, Num 50, Num 30,
                Str ''a@x.com'', Str ''5551234567'', Str ''Home Goods'', Str ''Male'',
                Str ''Credit Card'', Num 2023, Num 1, Num 15, Str ''Sunday'', Num 1,
                Str ''26-35'', Num 50]),
           (6, [Num 6, Str ''F'', Date (2023, 3, 3), Num 120, Num 3, Num 40, Num 45,
                Str ''f.g@y-z.org'', NA, Str ''Unknown'', Str ''Unknown'', NA, Num 2023,
                Num 3, Num 3, Str ''Friday'', Num 1, Str ''36-50'', Num 40])])"
  by code_simp

lemma orders_returns: "\<exists>out. clean_data iso_date no_repr orders = Inr out"
  using run_Inr [OF orders_run] by blast

section \<open>What each stage establishes\<close>

lemma in_rows_select [simp]:
  "x \<in> set (rows (select p df)) \<longleftrightarrow> x \<in> set (rows df) \<and> p (snd x)"
  by (auto simp: select_def)

lemma in_rows_dropna:
  "x \<in> set (rows (dropna cs df)) \<longleftrightarrow> x \<in> set (rows df) \<and> (\<forall>c\<in>set cs. get (snd x) c \<noteq> NA)"
  by (auto simp: dropna_def isnull_def list_all_iff)

lemma in_rows_map_col:
  "x \<in> set (rows (map_col c f df)) \<longleftrightarrow>
     (\<exists>r. (fst x, r) \<in> set (rows df) \<and> snd x = put c (f (get r c)) r)"
  by (cases x) (force simp: map_col_def image_iff)

lemma in_rows_assign:
  "x \<in> set (rows (assign c f df)) \<longleftrightarrow>
     (\<exists>r. (fst x, r) \<in> set (rows df) \<and> snd x = put c (f r) r)"
  by (cases x) (force simp: assign_def image_iff)

lemma traces_cell:
  assumes tr: "traces C out d" and c: "c \<in> C"
    and Q: "\<And>y. y \<in> set (rows d) \<Longrightarrow> Q (get (snd y) c)"
    and x: "x \<in> set (rows out)"
  shows "Q (get (snd x) c)"
proof -
  obtain i r where xe: "x = (i, r)" by (cases x)
  from tr x [unfolded xe] obtain r' where r': "(i, r') \<in> set (rows d)"
    and eq: "\<forall>c\<in>C. get r c = get r' c"
    by (rule traces_row) blast
  from Q [OF r'] eq c xe show ?thesis by simp
qed

lemma clean_data_stages:
  assumes "clean_data parse repr df = Inr out"
  obtains d1 d2 d4 where
    "handle_missing_values df = Inr d1" and
    "remove_duplicates d1 = Inr d2" and
    "handle_outliers (standardize_types parse repr d2) = Inr d4" and
    "out = create_derived_columns (standardize_categorical d4)" and
    "columns d1 = columns df" and "columns d2 = columns df" and "columns d4 = columns df"
proof -
  from assms obtain d where d: "before_derived parse repr df = Inr d"
    and out: "out = create_derived_columns d" by (rule clean_data_cases)
  from d obtain d1 d2 d4 where
    s1: "handle_missing_values df = Inr d1" and
    s2: "remove_duplicates d1 = Inr d2" and
    s4: "handle_outliers (standardize_types parse repr d2) = Inr d4" and
    d5: "d = standardize_categorical d4"
    by (auto simp: before_derived_def split: sum.splits)
  have c1: "columns d1 = columns df" using s1 by (rule columns_handle_missing_values)
  have c2: "columns d2 = columns df" using columns_remove_duplicates [OF s2] c1 by simp
  have c4: "columns d4 = columns df" using columns_handle_outliers [OF s4] c2 by simp
  show thesis using that [OF s1 s2 s4 _ c1 c2 c4] out d5 by simp
qed

lemma traces_late:
  "traces (- {''product_category'', ''customer_gender'', ''payment_method'', ''order_year'',
     ''order_month'', ''order_day'', ''order_weekday'', ''order_quarter'', ''age_group'',
     ''revenue_per_item''}) (create_derived_columns (standardize_categorical d)) d"
  (is "traces ?C _ _")
proof -
  have "traces ?C (create_derived_columns (standardize_categorical d)) (standardize_categorical d)"
    by (rule traces_mono [OF traces_create_derived_columns]) auto
  moreover have "traces ?C (standardize_categorical d) d"
    by (rule traces_mono [OF traces_standardize_categorical]) auto
  ultimately show ?thesis by (rule traces_trans)
qed

lemma handle_missing_values_dropna:
  assumes "handle_missing_values df = Inr d"
  obtains d' where "d = dropna (filter (\<lambda>c. c \<in> set (columns df)) critical_columns) d'"
  using assms by (auto simp: handle_missing_values_def Let_def split: if_splits)

lemma handle_missing_values_complete:
  assumes s: "handle_missing_values df = Inr d" and c: "c \<in> set critical_columns"
    and cd: "c \<in> set (columns df)" and x: "x \<in> set (rows d)"
  shows "get (snd x) c \<noteq> NA"
proof -
  from s obtain d' where "d = dropna (filter (\<lambda>c. c \<in> set (columns df)) critical_columns) d'"
    by (rule handle_missing_values_dropna)
  with x c cd show ?thesis by (simp add: in_rows_dropna)
qed

lemma standardize_types_order_date:
  assumes od: "''order_date'' \<in> set (columns df)"
    and x: "x \<in> set (rows (standardize_types parse repr df))"
  shows "get (snd x) ''order_date'' \<noteq> NA"
proof -
  let ?d1 = "dropna [''order_date''] (map_col ''order_date'' (to_datetime parse) df)"
  let ?d2 = "if ''customer_email'' \<in> set (columns ?d1)
             then select (\<lambda>r. str_match email_pattern (get r ''customer_email'')) ?d1 else ?d1"
  have st: "standardize_types parse repr df =
     (if ''customer_phone'' \<in> set (columns ?d2)
      then map_col ''customer_phone'' (clean_phone repr) ?d2 else ?d2)"
    using od by (simp add: standardize_types_def Let_def)
  have d1: "get (snd y) ''order_date'' \<noteq> NA" if "y \<in> set (rows ?d1)" for y
    using that by (simp add: in_rows_dropna)
  have d2: "get (snd y) ''order_date'' \<noteq> NA" if "y \<in> set (rows ?d2)" for y
    using that d1 by (auto split: if_splits)
  show ?thesis
  proof (cases "''customer_phone'' \<in> set (columns ?d2)")
    case True
    with x st obtain r where r: "(fst x, r) \<in> set (rows ?d2)"
      and sx: "snd x = put ''customer_phone'' (clean_phone repr (get r ''customer_phone'')) r"
      by (auto simp: in_rows_map_col)
    from d2 [OF r] sx show ?thesis by simp
  next
    case False
    with x st d2 show ?thesis by simp
  qed
qed

lemma positive_if_present_gt_zero:
  assumes "positive_if_present c df = Inr d" and "c \<in> set (columns df)" and "x \<in> set (rows d)"
  shows "gt_zero (get (snd x) c)"
  using assms by (auto simp: positive_if_present_def positive_only_def split: if_splits)

lemma positive_if_present_subset:
  "positive_if_present c df = Inr d \<Longrightarrow> set (rows d) \<subseteq> set (rows df)"
  by (auto simp: positive_if_present_def positive_only_def split: if_splits)

lemma rows_remove_extreme_subset: "set (rows (remove_extreme df)) \<subseteq> set (rows df)"
  by (auto simp: remove_extreme_def Let_def)

lemma handle_outliers_cases:
  assumes "handle_outliers df = Inr d"
  obtains d1 d2 d3 where
    "positive_if_present ''quantity'' df = Inr d1" and
    "positive_if_present ''unit_price'' d1 = Inr d2" and
    "positive_if_present ''total_amount'' d2 = Inr d3" and
    "d = (if ''total_amount'' \<in> set (columns df) then remove_extreme d3 else d3)"
proof -
  from assms obtain d1 d2 where
    p1: "positive_if_present ''quantity'' df = Inr d1" and
    p2: "positive_if_present ''unit_price'' d1 = Inr d2" and
    r: "(if ''total_amount'' \<in> set (columns d2)
         then (case positive_only ''total_amount'' d2 of Inl e \<Rightarrow> Inl e
               | Inr d3 \<Rightarrow> Inr (remove_extreme d3))
         else Inr d2) = Inr d"
    by (auto simp: handle_outliers_def split: sum.splits)
  have c2: "columns d2 = columns df"
    using columns_positive_if_present [OF p1] columns_positive_if_present [OF p2] by simp
  show thesis
  proof (cases "''total_amount'' \<in> set (columns df)")
    case True
    with r c2 obtain d3 where p3: "positive_only ''total_amount'' d2 = Inr d3"
      and d: "d = remove_extreme d3"
      by (auto split: sum.splits)
    have "positive_if_present ''total_amount'' d2 = Inr d3"
      using p3 True c2 by (simp add: positive_if_present_def)
    moreover have "d = (if ''total_amount'' \<in> set (columns df) then remove_extreme d3 else d3)"
      using d True by simp
    ultimately show thesis by (rule that [OF p1 p2])
  next
    case False
    have "positive_if_present ''total_amount'' d2 = Inr d2"
      using False c2 by (simp add: positive_if_present_def)
    moreover have "d = (if ''total_amount'' \<in> set (columns df) then remove_extreme d2 else d2)"
      using r False c2 by simp
    ultimately show thesis by (rule that [OF p1 p2])
  qed
qed

lemma handle_outliers_gt_zero:
  assumes ho: "handle_outliers df = Inr d"
    and c: "c \<in> {''quantity'', ''unit_price'', ''total_amount''}"
    and cd: "c \<in> set (columns df)" and x: "x \<in> set (rows d)"
  shows "gt_zero (get (snd x) c)"
proof -
  from ho obtain d1 d2 d3 where
    p1: "positive_if_present ''quantity'' df = Inr d1" and
    p2: "positive_if_present ''unit_price'' d1 = Inr d2" and
    p3: "positive_if_present ''total_amount'' d2 = Inr d3" and
    d: "d = (if ''total_amount'' \<in> set (columns df) then remove_extreme d3 else d3)"
    by (rule handle_outliers_cases)
  have c1: "columns d1 = columns df" using p1 by (rule columns_positive_if_present)
  have c2: "columns d2 = columns df" using columns_positive_if_present [OF p2] c1 by simp
  have x3: "x \<in> set (rows d3)" using x d rows_remove_extreme_subset [of d3]
    by (auto split: if_splits)
  then have x2: "x \<in> set (rows d2)" using positive_if_present_subset [OF p3] by auto
  then have x1: "x \<in> set (rows d1)" using positive_if_present_subset [OF p2] by auto
  from c consider "c = ''quantity''" | "c = ''unit_price''" | "c = ''total_amount''" by auto
  then show ?thesis
  proof cases
    case 1
    then show ?thesis using positive_if_present_gt_zero [OF p1 _ x1] cd by simp
  next
    case 2
    then show ?thesis using positive_if_present_gt_zero [OF p2 _ x2] cd c1 by simp
  next
    case 3
    then show ?thesis using positive_if_present_gt_zero [OF p3 _ x3] cd c2 by simp
  qed
qed

lemma gt_zero_iff: "gt_zero v \<longleftrightarrow> (\<exists>x. v = Num x \<and> 0 < x)"
  by (cases v) auto

lemma traces_from_stage_1:
  assumes s2: "remove_duplicates d1 = Inr d2"
    and s4: "handle_outliers (standardize_types parse repr d2) = Inr d4"
    and c: "c \<in> {''order_id'', ''customer_id'', ''total_amount'', ''quantity'', ''unit_price'',
               ''customer_email''}"
  shows "traces {c} (create_derived_columns (standardize_categorical d4)) d1"
proof -
  have "traces {c} (create_derived_columns (standardize_categorical d4)) d4"
    by (rule traces_mono [OF traces_late]) (use c in auto)
  moreover have "traces {c} d4 (standardize_types parse repr d2)"
    using s4 by (rule traces_handle_outliers)
  moreover have "traces {c} (standardize_types parse repr d2) d2"
    by (rule traces_mono [OF traces_standardize_types]) (use c in auto)
  moreover have "traces {c} d2 d1"
    using s2 by (rule traces_remove_duplicates)
  ultimately show ?thesis by (blast intro: traces_trans)
qed

lemma before_derived_stages:
  assumes "before_derived parse repr df = Inr d"
  obtains d1 d2 d4 where
    "handle_missing_values df = Inr d1" and
    "remove_duplicates d1 = Inr d2" and
    "handle_outliers (standardize_types parse repr d2) = Inr d4" and
    "d = standardize_categorical d4" and
    "columns d1 = columns df" and "columns d2 = columns df" and "columns d4 = columns df"
proof -
  from assms obtain d1 d2 d4 where
    s1: "handle_missing_values df = Inr d1" and
    s2: "remove_duplicates d1 = Inr d2" and
    s4: "handle_outliers (standardize_types parse repr d2) = Inr d4" and
    d5: "d = standardize_categorical d4"
    by (auto simp: before_derived_def split: sum.splits)
  have c1: "columns d1 = columns df" using s1 by (rule columns_handle_missing_values)
  have c2: "columns d2 = columns df" using columns_remove_duplicates [OF s2] c1 by simp
  have c4: "columns d4 = columns df" using columns_handle_outliers [OF s4] c2 by simp
  show thesis using that [OF s1 s2 s4 d5 c1 c2 c4] .
qed

lemma before_derived_gt_zero:
  assumes bd: "before_derived parse repr df = Inr d"
    and c: "c \<in> {''quantity'', ''unit_price'', ''total_amount''}"
    and cdf: "c \<in> set (columns df)" and x: "x \<in> set (rows d)"
  shows "gt_zero (get (snd x) c)"
proof -
  from bd obtain d1 d2 d4 where
    s1: "handle_missing_values df = Inr d1" and
    s4: "handle_outliers (standardize_types parse repr d2) = Inr d4" and
    d: "d = standardize_categorical d4" and
    c2: "columns d2 = columns df"
    by (rule before_derived_stages)
  have tr: "traces {c} d d4"
    unfolding d by (rule traces_mono [OF traces_standardize_categorical]) (use c in auto)
  have "gt_zero (get (snd y) c)" if "y \<in> set (rows d4)" for y
    using s4 c _ that by (rule handle_outliers_gt_zero) (simp add: c2 cdf)
  from traces_cell [where Q = gt_zero and c = c, OF tr _ this x] show ?thesis by simp
qed

lemma create_derived_columns_revenue:
  assumes t: "''total_amount'' \<in> set (columns d)" and q: "''quantity'' \<in> set (columns d)"
    and x: "x \<in> set (rows (create_derived_columns d))"
  obtains r where "(fst x, r) \<in> set (rows d)"
    and "get (snd x) ''total_amount'' = get r ''total_amount''"
    and "get (snd x) ''quantity'' = get r ''quantity''"
    and "get (snd x) ''revenue_per_item'' = cell_div (get r ''total_amount'') (get r ''quantity'')"
proof -
  let ?d1 = "if ''order_date'' \<in> set (columns d) then date_components d else d"
  let ?d2 = "if ''customer_age'' \<in> set (columns ?d1)
             then assign ''age_group'' (\<lambda>r. pd_cut age_bins age_labels (get r ''customer_age'')) ?d1
             else ?d1"
  have sub: "set (columns d) \<subseteq> set (columns ?d2)"
    by (auto simp: columns_assign columns_date_components)
  have cd: "create_derived_columns d =
      assign ''revenue_per_item'' (\<lambda>r. cell_div (get r ''total_amount'') (get r ''quantity'')) ?d2"
    using sub t q unfolding create_derived_columns_def Let_def by (simp only: subsetD if_True simp_thms)
  have tr1: "traces {''total_amount'', ''quantity''} ?d1 d"
    by (auto intro: traces_mono [OF traces_date_components])
  have tr2: "traces {''total_amount'', ''quantity''} ?d2 ?d1"
    by (simp add: traces_assign)
  have tr: "traces {''total_amount'', ''quantity''} ?d2 d"
    using tr2 tr1 by (rule traces_trans)
  from x cd obtain r2 where r2: "(fst x, r2) \<in> set (rows ?d2)"
    and sx: "snd x = put ''revenue_per_item''
               (cell_div (get r2 ''total_amount'') (get r2 ''quantity'')) r2"
    by (auto simp: in_rows_assign)
  from tr r2 obtain r where r: "(fst x, r) \<in> set (rows d)"
    and eq: "\<forall>c\<in>{''total_amount'', ''quantity''}. get r2 c = get r c"
    by (rule traces_row) blast
  show thesis using that [OF r] sx eq by simp
qed

lemma standardize_types_email:
  assumes ce: "''customer_email'' \<in> set (columns df)"
    and x: "x \<in> set (rows (standardize_types parse repr df))"
  shows "str_match email_pattern (get (snd x) ''customer_email'')"
proof -
  let ?d1 = "if ''order_date'' \<in> set (columns df)
             then dropna [''order_date''] (map_col ''order_date'' (to_datetime parse) df) else df"
  let ?d2 = "select (\<lambda>r. str_match email_pattern (get r ''customer_email'')) ?d1"
  have c1: "columns ?d1 = columns df" by simp
  have st: "standardize_types parse repr df =
     (if ''customer_phone'' \<in> set (columns ?d2)
      then map_col ''customer_phone'' (clean_phone repr) ?d2 else ?d2)"
    using ce c1 unfolding standardize_types_def Let_def by (simp only: if_True)
  have d2: "str_match email_pattern (get (snd y) ''customer_email'')" if "y \<in> set (rows ?d2)" for y
    using that by simp
  show ?thesis
  proof (cases "''customer_phone'' \<in> set (columns ?d2)")
    case True
    with x st obtain r where r: "(fst x, r) \<in> set (rows ?d2)"
      and sx: "snd x = put ''customer_phone'' (clean_phone repr (get r ''customer_phone'')) r"
      by (auto simp: in_rows_map_col)
    from d2 [OF r] sx show ?thesis by simp
  next
    case False
    with x st d2 show ?thesis by simp
  qed
qed

lemma distinct_index_row:
  assumes "distinct (map fst xs)" and "(i, r) \<in> set xs" and "(i, r') \<in> set xs"
  shows "r = r'"
  using assms by (induction xs) (auto simp: image_iff)

lemma orders_index: "map fst (rows orders) = [0, 1, 2, 3, 4, 5, 6, 7]"
  by code_simp

lemma create_derived_columns_age_group:
  assumes ca: "''customer_age'' \<in> set (columns d)"
    and x: "x \<in> set (rows (create_derived_columns d))"
  shows "get (snd x) ''age_group'' = pd_cut age_bins age_labels (get (snd x) ''customer_age'')"
proof -
  let ?d1 = "if ''order_date'' \<in> set (columns d) then date_components d else d"
  let ?d2 = "assign ''age_group'' (\<lambda>r. pd_cut age_bins age_labels (get r ''customer_age'')) ?d1"
  have c1: "''customer_age'' \<in> set (columns ?d1)"
    using ca by (simp add: columns_date_components)
  have cd: "create_derived_columns d =
      (if ''total_amount'' \<in> set (columns ?d2) \<and> ''quantity'' \<in> set (columns ?d2)
       then assign ''revenue_per_item''
              (\<lambda>r. cell_div (get r ''total_amount'') (get r ''quantity'')) ?d2
       else ?d2)"
    using c1 unfolding create_derived_columns_def Let_def by (simp only: if_True)
  have d2: "get (snd y) ''age_group'' = pd_cut age_bins age_labels (get (snd y) ''customer_age'')"
    if "y \<in> set (rows ?d2)" for y
    using that by (auto simp: in_rows_assign)
  show ?thesis
  proof (cases "''total_amount'' \<in> set (columns ?d2) \<and> ''quantity'' \<in> set (columns ?d2)")
    case True
    with x cd obtain r where r: "(fst x, r) \<in> set (rows ?d2)"
      and sx: "snd x = put ''revenue_per_item''
                 (cell_div (get r ''total_amount'') (get r ''quantity'')) r"
      by (auto simp: in_rows_assign)
    from d2 [OF r] sx show ?thesis by simp
  next
    case False
    with x cd d2 show ?thesis by auto
  qed
qed

lemma pd_cut_age:
  "pd_cut age_bins age_labels v =
     (case v of
        Num a \<Rightarrow>
          (if 0 < a \<and> a \<le> 25 then Str ''18-25''
           else if 25 < a \<and> a \<le> 35 then Str ''26-35''
           else if 35 < a \<and> a \<le> 50 then Str ''36-50''
           else if 50 < a \<and> a \<le> 65 then Str ''51-65''
           else if 65 < a \<and> a \<le> 100 then Str ''65+''
           else NA)
      | _ \<Rightarrow> NA)"
  by (cases v) (auto simp: age_bins_def age_labels_def)

section \<open>Keeping the first occurrence\<close>

lemma keep_first_find:
  "x \<in> set (keep_first key seen xs) \<Longrightarrow>
   key (snd x) \<notin> set seen \<and> find (\<lambda>y. key (snd y) = key (snd x)) xs = Some x"
proof (induction xs arbitrary: seen)
  case Nil
  then show ?case by simp
next
  case (Cons a xs)
  show ?case
  proof (cases "key (snd a) \<in> set seen")
    case True
    with Cons.prems have "x \<in> set (keep_first key seen xs)" by simp
    from Cons.IH [OF this] True show ?thesis by auto
  next
    case False
    show ?thesis
    proof (cases "x = a")
      case True
      with False show ?thesis by simp
    next
      case neq: False
      with False Cons.prems have "x \<in> set (keep_first key (key (snd a) # seen) xs)" by simp
      from Cons.IH [OF this] show ?thesis by auto
    qed
  qed
qed

lemma keep_first_distinct:
  "distinct (map (\<lambda>x. key (snd x)) (keep_first key seen xs))"
proof (induction xs arbitrary: seen)
  case Nil
  then show ?case by simp
next
  case (Cons a xs)
  have "key (snd y) \<noteq> key (snd a)"
    if "y \<in> set (keep_first key (key (snd a) # seen) xs)" for y
    using keep_first_find [OF that] by simp
  then have "key (snd a) \<notin> (\<lambda>x. key (snd x)) ` set (keep_first key (key (snd a) # seen) xs)"
    by force
  with Cons.IH show ?case by simp
qed

lemma find_filter: "find P (filter Q xs) = find (\<lambda>x. Q x \<and> P x) xs"
  by (induction xs) auto

lemma find_map: "find P (map g xs) = map_option g (find (\<lambda>x. P (g x)) xs)"
  by (induction xs) auto

lemma list_emb_map_distinct:
  assumes "list_emb P xs ys" and "\<And>x y. P x y \<Longrightarrow> f x = f y" and "distinct (map f ys)"
  shows "distinct (map f xs)"
  using assms
proof (induction rule: list_emb.induct)
  case (list_emb_Nil ys)
  then show ?case by simp
next
  case (list_emb_Cons xs ys y)
  then show ?case by simp
next
  case (list_emb_Cons2 x y xs ys)
  have "f x \<notin> f ` set xs"
  proof
    assume "f x \<in> f ` set xs"
    then obtain x' where x': "x' \<in> set xs" and e: "f x' = f x" by auto
    from list_emb_set [OF list_emb_Cons2.hyps(2) x'] obtain y' where "y' \<in> set ys" and "P x' y'"
      by blast
    with list_emb_Cons2.prems(1) [of x' y'] list_emb_Cons2.prems(1) [OF list_emb_Cons2.hyps(1)] e
      list_emb_Cons2.prems(2)
    show False by (auto simp: image_iff)
  qed
  with list_emb_Cons2 show ?case by simp
qed

lemma traces_distinct:
  assumes "traces {c} a b" and "distinct (map (\<lambda>x. get (snd x) c) (rows b))"
  shows "distinct (map (\<lambda>x. get (snd x) c) (rows a))"
  using assms(1) [unfolded traces_def] _ assms(2)
  by (rule list_emb_map_distinct) (simp add: same_on_def)

lemma rows_map_col:
  "rows (map_col c f df) = map (\<lambda>x. (fst x, put c (f (get (snd x) c)) (snd x))) (rows df)"
  by (simp add: map_col_def case_prod_unfold)

lemma rows_select: "rows (select p df) = filter (\<lambda>x. p (snd x)) (rows df)"
  by (simp add: select_def case_prod_unfold)

lemma rows_dropna:
  "rows (dropna cs df) = filter (\<lambda>x. list_all (\<lambda>c. \<not> isnull (get (snd x) c)) cs) (rows df)"
  by (simp add: dropna_def rows_select)

lemma has_criticals_cong:
  "(\<And>c. c \<in> set critical_columns \<Longrightarrow> get r c = get r' c) \<Longrightarrow>
   has_criticals df r = has_criticals df r'"
  unfolding has_criticals_def by (rule list_all_cong) auto

lemma handle_missing_values_rows:
  assumes hm: "handle_missing_values df = Inr d"
  obtains g where "rows d = filter (\<lambda>x. has_criticals df (snd x)) (map g (rows df))"
    and "\<And>x. fst (g x) = fst x"
    and "\<And>x c. c \<notin> {''customer_age'', ''product_category''} \<Longrightarrow>
           get (snd (g x)) c = get (snd x) c"
proof -
  define g1 :: "nat \<times> row \<Rightarrow> nat \<times> row" where
    "g1 = (if ''customer_age'' \<in> set (columns df)
           then (\<lambda>x. (fst x, put ''customer_age''
                   (fillna (median (col df ''customer_age'')) (get (snd x) ''customer_age'')) (snd x)))
           else id)"
  define g2 :: "nat \<times> row \<Rightarrow> nat \<times> row" where
    "g2 = (if ''product_category'' \<in> set (columns df)
           then (\<lambda>x. (fst x, put ''product_category''
                   (fillna (Str ''Unknown'') (get (snd x) ''product_category'')) (snd x)))
           else id)"
  let ?d1 = "if ''customer_age'' \<in> set (columns df)
             then map_col ''customer_age'' (fillna (median (col df ''customer_age''))) df else df"
  let ?d2 = "if ''product_category'' \<in> set (columns ?d1)
             then map_col ''product_category'' (fillna (Str ''Unknown'')) ?d1 else ?d1"
  have r1: "rows ?d1 = map g1 (rows df)" by (simp add: g1_def rows_map_col)
  have r2: "rows ?d2 = map (g2 \<circ> g1) (rows df)"
    using r1 by (simp add: g2_def rows_map_col)
  have c2: "columns ?d2 = columns df" by simp
  from hm have "d = dropna (filter (\<lambda>c. c \<in> set (columns ?d2)) critical_columns) ?d2"
    unfolding handle_missing_values_def Let_def by (simp split: if_splits)
  then have "rows d = filter (\<lambda>x. has_criticals df (snd x)) (map (g2 \<circ> g1) (rows df))"
    unfolding c2 by (simp only: rows_dropna r2 has_criticals_def)
  moreover have "fst ((g2 \<circ> g1) x) = fst x" for x
    by (simp add: g1_def g2_def)
  moreover have "get (snd ((g2 \<circ> g1) x)) c = get (snd x) c"
    if "c \<notin> {''customer_age'', ''product_category''}" for x c
    using that by (simp add: g1_def g2_def)
  ultimately show thesis by (rule that)
qed

section \<open>Claims\<close>

text \<open>
  C1. The claim: for every input table, also one without \<^verbatim>\<open>order_id\<close> or \<^verbatim>\<open>order_date\<close>,
  \<^verbatim>\<open>clean_data\<close> returns a table and raises nothing. The code does not: line 44 and the report
  of lines 137-138 read \<^verbatim>\<open>order_id\<close> and \<^verbatim>\<open>order_date\<close> with no test that the column
  exists, unlike every other column access of the function. Whenever one of the two columns
  is absent the call ends in an exception.
\<close>

theorem clean_data_raises:
  "''order_id'' \<notin> set (columns df) \<or> ''order_date'' \<notin> set (columns df) \<Longrightarrow>
   \<exists>e. clean_data parse repr df = Inl e"
  using clean_data_columns(1,2) [of parse repr df] by (cases "clean_data parse repr df") auto

theorem clean_data_raises_witness:
  "''order_id'' \<notin> set (columns no_order_id)
   \<and> (\<exists>e. clean_data iso_date no_repr no_order_id = Inl e)"
  using clean_data_raises [of no_order_id iso_date no_repr]
  by (simp add: no_order_id_def mk_frame_def)

lemma clean_data_KeyError:
  "run (clean_data iso_date no_repr no_order_id) = Inl (KeyError ''order_id'')"
  "run (clean_data iso_date no_repr no_order_date) = Inl (KeyError ''order_date'')"
  by code_simp+

text \<open>
  C10. \<^verbatim>\<open>clean_data\<close> never reorders rows: the index labels of the output, in order, are a
  subsequence of the index labels of the input, and each output row sits over an input row
  with the same label and the same cells in every column the function does not assign to.
\<close>

theorem clean_data_keeps_row_order:
  assumes "clean_data parse repr df = Inr out"
  shows "subseq (map fst (rows out)) (map fst (rows df)) \<and> traces (- set rewritten) out df"
  using traces_clean_data [OF assms] by (simp add: traces_subseq)

theorem clean_data_keeps_row_order_witness:
  "\<exists>out. clean_data iso_date no_repr orders = Inr out
     \<and> subseq (map fst (rows out)) (map fst (rows orders))
     \<and> traces (- set rewritten) out orders"
  using orders_returns clean_data_keeps_row_order [of iso_date no_repr orders] by blast

text \<open>
  C6. In every run that returns, each output row has a value (not NaN, None or NaT) in each of
  \<^verbatim>\<open>order_id\<close>, \<^verbatim>\<open>customer_id\<close>, \<^verbatim>\<open>order_date\<close> and \<^verbatim>\<open>total_amount\<close> that is a column of
  the input: line 39 drops the rows with a missing critical value, line 54 those whose date
  does not parse, and no later line writes to these columns but the date conversion.
\<close>

theorem critical_columns_complete:
  assumes cd: "clean_data parse repr df = Inr out"
    and c: "c \<in> set critical_columns" and cdf: "c \<in> set (columns df)"
  shows "\<forall>(i, r) \<in> set (rows out). \<not> isnull (get r c)"
proof -
  from cd obtain d1 d2 d4 where
    s1: "handle_missing_values df = Inr d1" and
    s2: "remove_duplicates d1 = Inr d2" and
    s4: "handle_outliers (standardize_types parse repr d2) = Inr d4" and
    out: "out = create_derived_columns (standardize_categorical d4)" and
    c2: "columns d2 = columns df"
    by (rule clean_data_stages)
  have "get (snd x) c \<noteq> NA" if x: "x \<in> set (rows out)" for x
  proof (cases "c = ''order_date''")
    case True
    let ?d3 = "standardize_types parse repr d2"
    have "traces {''order_date''} out d4"
      unfolding out by (rule traces_mono [OF traces_late]) auto
    moreover have "traces {''order_date''} d4 ?d3"
      using s4 by (rule traces_handle_outliers)
    ultimately have tr: "traces {''order_date''} out ?d3" by (rule traces_trans)
    have "get (snd y) ''order_date'' \<noteq> NA" if "y \<in> set (rows ?d3)" for y
      using that cdf c2 True by (intro standardize_types_order_date [of d2 y parse repr]) simp_all
    from traces_cell [where Q = "\<lambda>v. v \<noteq> NA" and c = "''order_date''", OF tr _ this x] True
    show ?thesis by simp
  next
    case False
    with c have c': "c \<in> {''order_id'', ''customer_id'', ''total_amount'', ''quantity'',
        ''unit_price'', ''customer_email''}"
      by (auto simp: critical_columns_def)
    have tr: "traces {c} out d1"
      unfolding out using s2 s4 c' by (rule traces_from_stage_1)
    have "get (snd y) c \<noteq> NA" if "y \<in> set (rows d1)" for y
      using s1 c cdf that by (rule handle_missing_values_complete)
    from traces_cell [where Q = "\<lambda>v. v \<noteq> NA" and c = c, OF tr _ this x]
    show ?thesis by simp
  qed
  then show ?thesis by (auto simp: isnull_def)
qed

theorem critical_columns_complete_witness:
  "\<exists>out. clean_data iso_date no_repr orders = Inr out
     \<and> ''order_date'' \<in> set critical_columns \<and> ''order_date'' \<in> set (columns orders)
     \<and> (\<forall>(i, r) \<in> set (rows out). \<not> isnull (get r ''order_date''))"
proof -
  from orders_returns obtain out where out: "clean_data iso_date no_repr orders = Inr out" ..
  have c: "''order_date'' \<in> set critical_columns" by (simp add: critical_columns_def)
  have d: "''order_date'' \<in> set (columns orders)" by (simp add: orders_def mk_frame_def)
  from critical_columns_complete [OF out c d] out c d show ?thesis by blast
qed

text \<open>
  C7. In every run that returns, each output row has a number greater than zero in each of
  \<^verbatim>\<open>quantity\<close>, \<^verbatim>\<open>unit_price\<close> and \<^verbatim>\<open>total_amount\<close> that is a column of the input
  (lines 69-77; a missing value compares false and goes too).
\<close>

theorem amounts_positive:
  assumes cd: "clean_data parse repr df = Inr out"
    and c: "c \<in> {''quantity'', ''unit_price'', ''total_amount''}" and cdf: "c \<in> set (columns df)"
  shows "\<forall>(i, r) \<in> set (rows out). \<exists>x. get r c = Num x \<and> 0 < x"
proof -
  from cd obtain d1 d2 d4 where
    s1: "handle_missing_values df = Inr d1" and
    s4: "handle_outliers (standardize_types parse repr d2) = Inr d4" and
    out: "out = create_derived_columns (standardize_categorical d4)" and
    c2: "columns d2 = columns df"
    by (rule clean_data_stages)
  have tr: "traces {c} out d4"
    unfolding out by (rule traces_mono [OF traces_late]) (use c in auto)
  have "gt_zero (get (snd y) c)" if "y \<in> set (rows d4)" for y
    using s4 c _ that by (rule handle_outliers_gt_zero) (simp add: c2 cdf)
  from traces_cell [where Q = gt_zero and c = c, OF tr _ this]
  show ?thesis by (auto simp: gt_zero_iff)
qed

theorem amounts_positive_witness:
  "\<exists>out. clean_data iso_date no_repr orders = Inr out
     \<and> ''quantity'' \<in> set (columns orders)
     \<and> (\<forall>(i, r) \<in> set (rows out). \<exists>x. get r ''quantity'' = Num x \<and> 0 < x)"
proof -
  from orders_returns obtain out where out: "clean_data iso_date no_repr orders = Inr out" ..
  have d: "''quantity'' \<in> set (columns orders)" by (simp add: orders_def mk_frame_def)
  from amounts_positive [OF out _ d] out d show ?thesis by blast
qed

text \<open>
  C9. When \<^verbatim>\<open>total_amount\<close> and \<^verbatim>\<open>quantity\<close> are columns of the input, every row that
  reaches the derived-column stage (the result of stages 1 to 5) has a quantity greater than
  zero, left by the mask of line 71; so the division of line 122 never has a zero divisor, and
  \<^verbatim>\<open>revenue_per_item\<close> is the quotient of the two numbers in every row.
\<close>

theorem revenue_per_item_divisor_positive:
  assumes bd: "before_derived parse repr df = Inr d"
    and t: "''total_amount'' \<in> set (columns df)" and q: "''quantity'' \<in> set (columns df)"
  shows "(\<forall>(i, r) \<in> set (rows d). \<exists>y. get r ''quantity'' = Num y \<and> 0 < y)
    \<and> (\<forall>(i, r) \<in> set (rows (create_derived_columns d)).
          \<exists>a y. get r ''total_amount'' = Num a \<and> get r ''quantity'' = Num y \<and> 0 < y
            \<and> get r ''revenue_per_item'' = Num (a / y))"
proof -
  have cols: "columns d = columns df" using bd by (rule columns_before_derived)
  have pq: "\<exists>y. get (snd x) ''quantity'' = Num y \<and> 0 < y" if "x \<in> set (rows d)" for x
    using before_derived_gt_zero [OF bd _ q that] by (simp add: gt_zero_iff)
  have pt: "\<exists>a. get (snd x) ''total_amount'' = Num a \<and> 0 < a" if "x \<in> set (rows d)" for x
    using before_derived_gt_zero [OF bd _ t that] by (simp add: gt_zero_iff)
  have "\<exists>a y. get (snd x) ''total_amount'' = Num a \<and> get (snd x) ''quantity'' = Num y \<and> 0 < y
            \<and> get (snd x) ''revenue_per_item'' = Num (a / y)"
    if x: "x \<in> set (rows (create_derived_columns d))" for x
  proof -
    have t': "''total_amount'' \<in> set (columns d)" and q': "''quantity'' \<in> set (columns d)"
      using t q cols by simp_all
    from t' q' x obtain r where r: "(fst x, r) \<in> set (rows d)"
      and e1: "get (snd x) ''total_amount'' = get r ''total_amount''"
      and e2: "get (snd x) ''quantity'' = get r ''quantity''"
      and e3: "get (snd x) ''revenue_per_item'' = cell_div (get r ''total_amount'') (get r ''quantity'')"
      by (rule create_derived_columns_revenue)
    from pq [OF r] pt [OF r] e1 e2 e3 show ?thesis by (auto simp: cell_div_def)
  qed
  with pq show ?thesis by auto
qed

theorem revenue_per_item_divisor_positive_witness:
  "\<exists>d. before_derived iso_date no_repr orders = Inr d
     \<and> ''total_amount'' \<in> set (columns orders) \<and> ''quantity'' \<in> set (columns orders)
     \<and> (\<forall>(i, r) \<in> set (rows d). \<exists>y. get r ''quantity'' = Num y \<and> 0 < y)
     \<and> (\<forall>(i, r) \<in> set (rows (create_derived_columns d)).
          \<exists>a y. get r ''total_amount'' = Num a \<and> get r ''quantity'' = Num y \<and> 0 < y
            \<and> get r ''revenue_per_item'' = Num (a / y))"
proof -
  from orders_returns obtain out where "clean_data iso_date no_repr orders = Inr out" ..
  then obtain d where d: "before_derived iso_date no_repr orders = Inr d"
    by (rule clean_data_cases)
  have t: "''total_amount'' \<in> set (columns orders)" by (simp add: orders_def mk_frame_def)
  have q: "''quantity'' \<in> set (columns orders)" by (simp add: orders_def mk_frame_def)
  from revenue_per_item_divisor_positive [OF d t q] d t q show ?thesis by blast
qed

text \<open>
  C5. When \<^verbatim>\<open>customer_email\<close> is a column of the input, every row of the output has an
  address that matches the pattern of line 58, and no input row whose address does not match
  (a missing address does not: \<^verbatim>\<open>na=False\<close>) is in the output. Rows are identified by their
  index labels, which are taken to be distinct for the second part.
\<close>

theorem invalid_emails_removed:
  assumes cd: "clean_data parse repr df = Inr out"
    and ce: "''customer_email'' \<in> set (columns df)"
  shows "(\<forall>(i, r) \<in> set (rows out). str_match email_pattern (get r ''customer_email''))
    \<and> (distinct (map fst (rows df)) \<longrightarrow>
         (\<forall>(i, r) \<in> set (rows df).
            \<not> str_match email_pattern (get r ''customer_email'') \<longrightarrow> i \<notin> fst ` set (rows out)))"
proof -
  from cd obtain d1 d2 d4 where
    s1: "handle_missing_values df = Inr d1" and
    s4: "handle_outliers (standardize_types parse repr d2) = Inr d4" and
    out: "out = create_derived_columns (standardize_categorical d4)" and
    c2: "columns d2 = columns df"
    by (rule clean_data_stages)
  let ?d3 = "standardize_types parse repr d2"
  have "traces {''customer_email''} out d4"
    unfolding out by (rule traces_mono [OF traces_late]) auto
  moreover have "traces {''customer_email''} d4 ?d3"
    using s4 by (rule traces_handle_outliers)
  ultimately have tr: "traces {''customer_email''} out ?d3" by (rule traces_trans)
  have m3: "str_match email_pattern (get (snd y) ''customer_email'')" if "y \<in> set (rows ?d3)" for y
    using _ that by (rule standardize_types_email) (simp add: c2 ce)
  have m: "str_match email_pattern (get (snd x) ''customer_email'')" if "x \<in> set (rows out)" for x
    using traces_cell [where Q = "str_match email_pattern" and c = "''customer_email''",
        OF tr _ m3 that] by simp
  have tr0: "traces {''customer_email''} out df"
    by (rule traces_mono [OF traces_clean_data [OF cd]]) (simp add: rewritten_def)
  have no: "i \<notin> fst ` set (rows out)"
    if dist: "distinct (map fst (rows df))" and ir: "(i, r) \<in> set (rows df)"
      and nm: "\<not> str_match email_pattern (get r ''customer_email'')" for i r
  proof
    assume "i \<in> fst ` set (rows out)"
    then obtain r1 where r1: "(i, r1) \<in> set (rows out)" by auto
    from tr0 r1 obtain r0 where r0: "(i, r0) \<in> set (rows df)"
      and eq: "\<forall>c\<in>{''customer_email''}. get r1 c = get r0 c"
      by (rule traces_row) blast
    from dist ir r0 have "r = r0" by (rule distinct_index_row)
    with m [OF r1] eq nm show False by simp
  qed
  have p1: "\<forall>(i, r) \<in> set (rows out). str_match email_pattern (get r ''customer_email'')"
    using m by auto
  have p2: "\<forall>(i, r) \<in> set (rows df).
      \<not> str_match email_pattern (get r ''customer_email'') \<longrightarrow> i \<notin> fst ` set (rows out)"
    if "distinct (map fst (rows df))"
    using no [OF that] by blast
  from p1 p2 show ?thesis by blast
qed

theorem invalid_emails_removed_witness:
  "\<exists>out. clean_data iso_date no_repr orders = Inr out
     \<and> ''customer_email'' \<in> set (columns orders)
     \<and> distinct (map fst (rows orders))
     \<and> (\<forall>(i, r) \<in> set (rows out). str_match email_pattern (get r ''customer_email''))
     \<and> (\<forall>(i, r) \<in> set (rows orders).
            \<not> str_match email_pattern (get r ''customer_email'') \<longrightarrow> i \<notin> fst ` set (rows out))"
proof -
  from orders_returns obtain out where out: "clean_data iso_date no_repr orders = Inr out" ..
  have ce: "''customer_email'' \<in> set (columns orders)" by (simp add: orders_def mk_frame_def)
  have di: "distinct (map fst (rows orders))" by (simp add: orders_index)
  from invalid_emails_removed [OF out ce] out ce di show ?thesis by blast
qed

text \<open>
  C8. The claim: \<^verbatim>\<open>age_group\<close> buckets \<^verbatim>\<open>customer_age\<close> into the bins [0,25], [26,35],
  [36,50], [51,65], [65,100], and a value outside that range has no group. \<^verbatim>\<open>pd.cut\<close> is
  called with its defaults, so the intervals are open on the left and closed on the right:
  (0,25], (25,35], (35,50], (50,65], (65,100]. The age 0 has no group, 25.5 is in "26-35" and
  65 is in "51-65" only. As amended: in every run that returns, with \<^verbatim>\<open>customer_age\<close> a
  column of the input, the group of each output row is the label of the interval among
  these five that holds its age, and is missing when the age is missing, at most 0 or more
  than 100.
\<close>

theorem age_group_intervals:
  assumes cd: "clean_data parse repr df = Inr out"
    and ca: "''customer_age'' \<in> set (columns df)"
  shows "\<forall>(i, r) \<in> set (rows out).
     get r ''age_group'' =
       (case get r ''customer_age'' of
          Num a \<Rightarrow>
            (if 0 < a \<and> a \<le> 25 then Str ''18-25''
             else if 25 < a \<and> a \<le> 35 then Str ''26-35''
             else if 35 < a \<and> a \<le> 50 then Str ''36-50''
             else if 50 < a \<and> a \<le> 65 then Str ''51-65''
             else if 65 < a \<and> a \<le> 100 then Str ''65+''
             else NA)
        | _ \<Rightarrow> NA)"
proof -
  from cd obtain d where d: "before_derived parse repr df = Inr d"
    and out: "out = create_derived_columns d" by (rule clean_data_cases)
  have "''customer_age'' \<in> set (columns d)" using columns_before_derived [OF d] ca by simp
  then have "get (snd x) ''age_group'' = pd_cut age_bins age_labels (get (snd x) ''customer_age'')"
    if "x \<in> set (rows out)" for x
    using that unfolding out by (rule create_derived_columns_age_group)
  then show ?thesis by (auto simp: pd_cut_age)
qed

theorem age_group_intervals_witness:
  "\<exists>out. clean_data iso_date no_repr orders = Inr out
     \<and> ''customer_age'' \<in> set (columns orders)
     \<and> (\<forall>(i, r) \<in> set (rows out).
     get r ''age_group'' =
       (case get r ''customer_age'' of
          Num a \<Rightarrow>
            (if 0 < a \<and> a \<le> 25 then Str ''18-25''
             else if 25 < a \<and> a \<le> 35 then Str ''26-35''
             else if 35 < a \<and> a \<le> 50 then Str ''36-50''
             else if 50 < a \<and> a \<le> 65 then Str ''51-65''
             else if 65 < a \<and> a \<le> 100 then Str ''65+''
             else NA)
        | _ \<Rightarrow> NA))"
proof -
  from orders_returns obtain out where out: "clean_data iso_date no_repr orders = Inr out" ..
  have ca: "''customer_age'' \<in> set (columns orders)" by (simp add: orders_def mk_frame_def)
  from age_group_intervals [OF out ca] out ca show ?thesis by blast
qed

theorem age_zero_has_no_group:
  "run (clean_data iso_date no_repr age_zero) =
     Inr ([''order_id'', ''order_date'', ''customer_age'', ''order_year'', ''order_month'',
           ''order_day'', ''order_weekday'', ''order_quarter'', ''age_group''],
          [(0, [Num 1, Date (2023, 1, 15), Num 0, Num 2023, Num 1, Num 15, Str ''Sunday'',
                Num 1, NA]),
           (1, [Num 2, Date (2023, 1, 16), Num 25.5, Num 2023, Num 1, Num 16, Str ''Monday'',
                Num 1, Str ''26-35'']),
           (2, [Num 3, Date (2023, 1, 17), Num 65, Num 2023, Num 1, Num 17, Str ''Tuesday'',
                Num 1, Str ''51-65'']),
           (3, [Num 4, Date (2023, 1, 18), Num 101, Num 2023, Num 1, Num 18, Str ''Wednesday'',
                Num 1, NA])])"
  by code_simp

text \<open>
  C3. The claim: no two output rows share an \<^verbatim>\<open>order_id\<close>, and among the input rows that
  share an \<^verbatim>\<open>order_id\<close> the retained one is the first in the original order. The first
  part holds. The second does not: line 39 drops the rows with a missing critical value
  before line 44 removes the duplicates, so when the first of two rows with one \<^verbatim>\<open>order_id\<close>
  has no \<^verbatim>\<open>customer_id\<close> the second one is kept. As amended: the retained row is the first
  occurrence of its \<^verbatim>\<open>order_id\<close> among the input rows that have a value in every critical
  column.
\<close>

theorem first_complete_occurrence_kept:
  assumes cd: "clean_data parse repr df = Inr out"
  shows "distinct (map (\<lambda>(i, r). get r ''order_id'') (rows out))
    \<and> (\<forall>(i, r) \<in> set (rows out).
         map_option fst
           (find (\<lambda>(j, r'). has_criticals df r' \<and> get r' ''order_id'' = get r ''order_id'')
              (rows df)) = Some i)"
proof -
  from cd obtain d1 d2 d4 where
    s1: "handle_missing_values df = Inr d1" and
    s2: "remove_duplicates d1 = Inr d2" and
    s4: "handle_outliers (standardize_types parse repr d2) = Inr d4" and
    out: "out = create_derived_columns (standardize_categorical d4)"
    by (rule clean_data_stages)
  let ?key = "\<lambda>r. get r ''order_id''"
  from s2 have r2: "rows d2 = keep_first ?key [] (rows d1)"
    by (auto simp: remove_duplicates_def drop_duplicates_def split: if_splits)
  have tr: "traces {''order_id''} out d2"
  proof -
    have "traces {''order_id''} out d4"
      unfolding out by (rule traces_mono [OF traces_late]) auto
    moreover have "traces {''order_id''} d4 (standardize_types parse repr d2)"
      using s4 by (rule traces_handle_outliers)
    moreover have "traces {''order_id''} (standardize_types parse repr d2) d2"
      by (rule traces_mono [OF traces_standardize_types]) auto
    ultimately show ?thesis by (blast intro: traces_trans)
  qed
  have "distinct (map (\<lambda>x. get (snd x) ''order_id'') (rows d2))"
    unfolding r2 by (rule keep_first_distinct)
  with tr have "distinct (map (\<lambda>x. get (snd x) ''order_id'') (rows out))"
    by (rule traces_distinct)
  then have p1: "distinct (map (\<lambda>(i, r). get r ''order_id'') (rows out))"
    by (simp add: case_prod_unfold)
  from s1 obtain g where
    r1: "rows d1 = filter (\<lambda>x. has_criticals df (snd x)) (map g (rows df))" and
    gi: "\<forall>x. fst (g x) = fst x" and
    gc: "\<forall>x c. c \<notin> {''customer_age'', ''product_category''} \<longrightarrow>
           get (snd (g x)) c = get (snd x) c"
    by (rule handle_missing_values_rows) blast
  have hc: "has_criticals df (snd (g x)) = has_criticals df (snd x)" for x
    by (rule has_criticals_cong) (auto simp: critical_columns_def gc)
  have p2: "map_option fst
      (find (\<lambda>(j, r'). has_criticals df r' \<and> get r' ''order_id'' = get r ''order_id'')
         (rows df)) = Some i"
    if ir: "(i, r) \<in> set (rows out)" for i r
  proof -
    from tr ir obtain r' where r': "(i, r') \<in> set (rows d2)"
      and eq: "\<forall>c\<in>{''order_id''}. get r c = get r' c"
      by (rule traces_row) blast
    from r' have "find (\<lambda>y. ?key (snd y) = ?key (snd (i, r'))) (rows d1) = Some (i, r')"
      unfolding r2 by (rule keep_first_find [THEN conjunct2])
    then have "map_option g
        (find (\<lambda>x. has_criticals df (snd x) \<and> get (snd x) ''order_id'' = get r ''order_id'')
           (rows df)) = Some (i, r')"
      using eq by (simp add: r1 find_filter find_map hc gc)
    then obtain x0 where
      f: "find (\<lambda>x. has_criticals df (snd x) \<and> get (snd x) ''order_id'' = get r ''order_id'')
            (rows df) = Some x0" and g0: "g x0 = (i, r')"
      by auto
    from g0 gi have "fst x0 = i" by (metis fst_conv)
    with f show ?thesis by (simp add: case_prod_unfold)
  qed
  from p1 p2 show ?thesis by blast
qed

theorem first_complete_occurrence_kept_witness:
  "\<exists>out. clean_data iso_date no_repr orders = Inr out
    \<and> distinct (map (\<lambda>(i, r). get r ''order_id'') (rows out))
    \<and> (\<forall>(i, r) \<in> set (rows out).
         map_option fst
           (find (\<lambda>(j, r'). has_criticals orders r' \<and> get r' ''order_id'' = get r ''order_id'')
              (rows orders)) = Some i)"
proof -
  from orders_returns obtain out where out: "clean_data iso_date no_repr orders = Inr out" ..
  from first_complete_occurrence_kept [OF out] out show ?thesis by blast
qed

theorem later_duplicate_kept:
  "run (clean_data iso_date no_repr first_incomplete) =
     Inr ([''order_id'', ''customer_id'', ''order_date'', ''order_year'', ''order_month'',
           ''order_day'', ''order_weekday'', ''order_quarter''],
          [(1, [Num 5, Str ''A'', Date (2023, 1, 16), Num 2023, Num 1, Num 16, Str ''Monday'',
                Num 1])])
   \<and> map (\<lambda>(i, r). (i, get r ''order_id'')) (rows first_incomplete) = [(0, Num 5), (1, Num 5)]"
  by code_simp

end
